theory Spec2Isabelle
  imports Complex_Main "HOL-Library.Char_ord" "HOL-Library.List_Lexorder" "HOL-Library.Multiset"
begin

section \<open>The co-occurrence graph of \<open>app.py\<close>\<close>

text \<open>
  \<open>build_graph\<close> (app.py, lines 97-103) fills a \<open>networkx.Graph\<close> through
  \<open>add_edge\<close> only. The graph is modelled by what the claims read of it: the nodes
  in insertion order, and the undirected edges in insertion order, each stored once in
  the orientation of its first insertion. \<open>add_edge u v\<close> creates the two nodes when
  they are new and stores the edge unless it is already there in either orientation.
\<close>

datatype error =
  IndexError | PowerIterationFailedConvergence | ValueError | StreamlitInvalidMinMaxError

record graph =
  nodes :: "string list"
  edges :: "(string \<times> string) list"

definition empty_graph :: graph where
  "empty_graph = \<lparr>nodes = [], edges = []\<rparr>"

definition has_edge :: "graph \<Rightarrow> string \<Rightarrow> string \<Rightarrow> bool" where
  "has_edge G u v = ((u, v) \<in> set (edges G) \<or> (v, u) \<in> set (edges G))"

definition add_node :: "string \<Rightarrow> graph \<Rightarrow> graph" where
  "add_node u G = (if u \<in> set (nodes G) then G else G\<lparr>nodes := nodes G @ [u]\<rparr>)"

definition add_edge :: "string \<Rightarrow> string \<Rightarrow> graph \<Rightarrow> graph" where
  "add_edge u v G =
     (let G1 = add_node v (add_node u G)
      in if has_edge G1 u v then G1 else G1\<lparr>edges := edges G1 @ [(u, v)]\<rparr>)"

text \<open>
  Python's \<open>words[k]\<close>: a negative index counts from the end, and an index outside the
  list raises \<open>IndexError\<close>.
\<close>

definition getitem :: "string list \<Rightarrow> int \<Rightarrow> error + string" where
  "getitem ws k =
     (let n = int (length ws); p = (if k < 0 then n + k else k)
      in if 0 \<le> p \<and> p < n then Inr (ws ! nat p) else Inl IndexError)"

text \<open>Python's \<open>range(a, b)\<close>: the integers from \<open>a\<close> up to \<open>b - 1\<close>, none when \<open>b \<le> a\<close>.\<close>

definition py_range :: "int \<Rightarrow> int \<Rightarrow> int list" where
  "py_range a b = [a..b - 1]"

text \<open>
  The inner loop \<open>for j in range(1, window_size + 1)\<close> at a fixed \<open>i\<close>, over the
  offsets that are left, and the outer loop \<open>for i in range(len(words) - window_size)\<close>
  over the positions that are left. An \<open>IndexError\<close> ends both.
\<close>

fun inner_loop :: "string list \<Rightarrow> int \<Rightarrow> int list \<Rightarrow> graph \<Rightarrow> error + graph" where
  "inner_loop ws i [] G = Inr G"
| "inner_loop ws i (j # js) G =
     (case getitem ws i of
        Inl e \<Rightarrow> Inl e
      | Inr a \<Rightarrow>
          (case getitem ws (i + j) of
             Inl e \<Rightarrow> Inl e
           | Inr b \<Rightarrow> inner_loop ws i js (if a \<noteq> b then add_edge a b G else G)))"

fun outer_loop :: "string list \<Rightarrow> int \<Rightarrow> int list \<Rightarrow> graph \<Rightarrow> error + graph" where
  "outer_loop ws w [] G = Inr G"
| "outer_loop ws w (i # is) G =
     (case inner_loop ws i (py_range 1 (w + 1)) G of
        Inl e \<Rightarrow> Inl e
      | Inr G' \<Rightarrow> outer_loop ws w is G')"

definition build_graph :: "string list \<Rightarrow> int \<Rightarrow> error + graph" where
  "build_graph ws w = outer_loop ws w (py_range 0 (int (length ws) - w)) empty_graph"

text \<open>
  The pairs the two loops visit: position \<open>i\<close> with \<open>i + w < length ws\<close> (the outer
  range stops \<open>w\<close> positions before the end) and offset \<open>1 \<le> j \<le> w\<close>, the two words
  being different. \<open>linked\<close> reads such a pair in either direction.
\<close>

definition visited :: "string list \<Rightarrow> int \<Rightarrow> string \<Rightarrow> string \<Rightarrow> bool" where
  "visited ws w a b =
     (\<exists>i j. int i + w < int (length ws) \<and> 1 \<le> j \<and> int j \<le> w \<and>
            ws ! i = a \<and> ws ! (i + j) = b \<and> a \<noteq> b)"

definition linked :: "string list \<Rightarrow> int \<Rightarrow> string \<Rightarrow> string \<Rightarrow> bool" where
  "linked ws w a b = (visited ws w a b \<or> visited ws w b a)"

text \<open>
  Two words occur within \<open>w\<close> positions of each other somewhere in the sequence, in
  either direction.
\<close>

definition within_window :: "string list \<Rightarrow> int \<Rightarrow> string \<Rightarrow> string \<Rightarrow> bool" where
  "within_window ws w a b =
     (\<exists>i j. i < length ws \<and> j < length ws \<and> i \<noteq> j \<and>
            \<bar>int i - int j\<bar> \<le> w \<and> ws ! i = a \<and> ws ! j = b)"

subsection \<open>Edges of a graph under \<open>add_edge\<close>\<close>

lemma has_edge_add_node [simp]: "has_edge (add_node u G) a b = has_edge G a b"
  by (simp add: add_node_def has_edge_def)

lemma has_edge_add_edge:
  "has_edge (add_edge u v G) a b =
     (has_edge G a b \<or> (a = u \<and> b = v) \<or> (a = v \<and> b = u))"
  by (auto simp: add_edge_def Let_def has_edge_def add_node_def)

lemma has_edge_sym: "has_edge G a b = has_edge G b a"
  by (auto simp: has_edge_def)

lemma has_edge_empty [simp]: "\<not> has_edge empty_graph a b"
  by (simp add: has_edge_def empty_graph_def)

lemma getitem_in_range:
  "0 \<le> k \<Longrightarrow> k < int (length ws) \<Longrightarrow> getitem ws k = Inr (ws ! nat k)"
  by (simp add: getitem_def Let_def)

lemma set_py_range [simp]: "set (py_range a b) = {a..b - 1}"
  by (simp add: py_range_def)

subsection \<open>The inner loop\<close>

text \<open>
  The pair at position \<open>i\<close> and offset \<open>j\<close>, read as the unordered pair \<open>{a, b}\<close> of
  two different words.
\<close>

definition pair_at :: "string list \<Rightarrow> int \<Rightarrow> int \<Rightarrow> string \<Rightarrow> string \<Rightarrow> bool" where
  "pair_at ws i j a b =
     (ws ! nat i \<noteq> ws ! nat (i + j) \<and>
      ((a = ws ! nat i \<and> b = ws ! nat (i + j)) \<or> (b = ws ! nat i \<and> a = ws ! nat (i + j))))"

text \<open>
  With every offset in range the inner loop returns a graph, whose edges are the ones
  it started from and the pairs at the offsets with two different words.
\<close>

lemma inner_loop_edges:
  assumes "0 \<le> i" and "i < int (length ws)"
    and "\<forall>j \<in> set js. 1 \<le> j \<and> i + j < int (length ws)"
  shows "\<exists>G'. inner_loop ws i js G = Inr G' \<and>
           (\<forall>a b. has_edge G' a b = (has_edge G a b \<or> (\<exists>j \<in> set js. pair_at ws i j a b)))"
  using assms(3)
proof (induction js arbitrary: G)
  case Nil
  then show ?case by simp
next
  case (Cons j js)
  define x where "x = ws ! nat i"
  define y where "y = ws ! nat (i + j)"
  define G1 where "G1 = (if x \<noteq> y then add_edge x y G else G)"
  from Cons.prems have j: "1 \<le> j" "i + j < int (length ws)" by simp_all
  have gi: "getitem ws i = Inr x"
    unfolding x_def using assms(1,2) by (rule getitem_in_range)
  have gj: "getitem ws (i + j) = Inr y"
    unfolding y_def using assms(1) j by (intro getitem_in_range) simp_all
  from Cons.prems have "\<forall>j \<in> set js. 1 \<le> j \<and> i + j < int (length ws)" by simp
  from Cons.IH [OF this, of G1]
  obtain G' where G': "inner_loop ws i js G1 = Inr G'"
    and ed: "\<And>a b. has_edge G' a b = (has_edge G1 a b \<or> (\<exists>j \<in> set js. pair_at ws i j a b))"
    by blast
  have run: "inner_loop ws i (j # js) G = Inr G'"
    using gi gj G' by (simp add: G1_def)
  have first: "has_edge G1 a b = (has_edge G a b \<or> pair_at ws i j a b)" for a b
    by (auto simp: G1_def pair_at_def has_edge_add_edge x_def y_def)
  have "has_edge G' a b = (has_edge G a b \<or> (\<exists>j \<in> set (j # js). pair_at ws i j a b))" for a b
    unfolding ed [of a b] first [of a b] by auto
  with run show ?case by blast
qed

subsection \<open>The outer loop\<close>

lemma outer_loop_edges:
  assumes "0 < w" and "\<forall>i \<in> set is. 0 \<le> i \<and> i + w < int (length ws)"
  shows "\<exists>G'. outer_loop ws w is G = Inr G' \<and>
           (\<forall>a b. has_edge G' a b =
              (has_edge G a b \<or> (\<exists>i \<in> set is. \<exists>j \<in> {1..w}. pair_at ws i j a b)))"
  using assms(2)
proof (induction "is" arbitrary: G)
  case Nil
  then show ?case by simp
next
  case (Cons i "is")
  from Cons.prems have i: "0 \<le> i" "i + w < int (length ws)" by simp_all
  have "\<forall>j \<in> set (py_range 1 (w + 1)). 1 \<le> j \<and> i + j < int (length ws)"
    using i by simp
  from inner_loop_edges [OF i(1) _ this, of G] i assms(1)
  obtain G1 where G1: "inner_loop ws i (py_range 1 (w + 1)) G = Inr G1"
    and e1: "\<And>a b. has_edge G1 a b = (has_edge G a b \<or> (\<exists>j \<in> {1..w}. pair_at ws i j a b))"
    by auto
  from Cons.prems have "\<forall>i \<in> set is. 0 \<le> i \<and> i + w < int (length ws)" by simp
  from Cons.IH [OF this, of G1]
  obtain G' where G': "outer_loop ws w is G1 = Inr G'"
    and e2: "\<And>a b. has_edge G' a b =
               (has_edge G1 a b \<or> (\<exists>i \<in> set is. \<exists>j \<in> {1..w}. pair_at ws i j a b))"
    by blast
  have run: "outer_loop ws w (i # is) G = Inr G'"
    using G1 G' by simp
  have "has_edge G' a b =
          (has_edge G a b \<or> (\<exists>i \<in> set (i # is). \<exists>j \<in> {1..w}. pair_at ws i j a b))" for a b
    unfolding e2 [of a b] e1 [of a b] by auto
  with run show ?case by blast
qed

text \<open>
  A window size that is not positive leaves the inner range empty: no word is read and
  no edge is added, whatever the outer range is.
\<close>

lemma outer_loop_no_offsets: "w \<le> 0 \<Longrightarrow> outer_loop ws w is G = Inr G"
  by (induction "is") (simp_all add: py_range_def)

subsection \<open>The edges of the built graph\<close>

lemma pairs_are_linked:
  assumes "0 < w"
  shows "(\<exists>i \<in> {0..int (length ws) - w - 1}. \<exists>j \<in> {1..w}. pair_at ws i j a b) = linked ws w a b"
proof
  assume "\<exists>i \<in> {0..int (length ws) - w - 1}. \<exists>j \<in> {1..w}. pair_at ws i j a b"
  then obtain i j where ij: "0 \<le> i" "i + w < int (length ws)" "1 \<le> j" "j \<le> w"
    and p: "pair_at ws i j a b"
    by auto
  have n: "nat (i + j) = nat i + nat j"
    using ij by (simp add: nat_add_distrib)
  have b: "int (nat i) + w < int (length ws)" "1 \<le> nat j" "int (nat j) \<le> w"
    using ij by simp_all
  from p show "linked ws w a b"
    unfolding pair_at_def linked_def visited_def n using b by blast
next
  assume "linked ws w a b"
  then obtain i j where ij: "int i + w < int (length ws)" "1 \<le> j" "int j \<le> w"
    and p: "ws ! i \<noteq> ws ! (i + j)"
      "(a = ws ! i \<and> b = ws ! (i + j)) \<or> (b = ws ! i \<and> a = ws ! (i + j))"
    unfolding linked_def visited_def by metis
  have "int i \<in> {0..int (length ws) - w - 1}" "int j \<in> {1..w}"
    using ij by simp_all
  moreover have "pair_at ws (int i) (int j) a b"
    using p by (simp add: pair_at_def nat_add_distrib)
  ultimately show "\<exists>i \<in> {0..int (length ws) - w - 1}. \<exists>j \<in> {1..w}. pair_at ws i j a b"
    by blast
qed

lemma build_graph_edges:
  assumes "0 < w"
  shows "\<exists>G. build_graph ws w = Inr G \<and> (\<forall>a b. has_edge G a b = linked ws w a b)"
proof -
  have "\<forall>i \<in> set (py_range 0 (int (length ws) - w)). 0 \<le> i \<and> i + w < int (length ws)"
    by simp
  from outer_loop_edges [OF assms this, of empty_graph]
  obtain G where G: "build_graph ws w = Inr G"
    and e: "\<And>a b. has_edge G a b =
              (\<exists>i \<in> {0..int (length ws) - w - 1}. \<exists>j \<in> {1..w}. pair_at ws i j a b)"
    by (auto simp: build_graph_def)
  have "has_edge G a b = linked ws w a b" for a b
    unfolding e [of a b] by (rule pairs_are_linked [OF assms])
  with G show ?thesis by blast
qed

lemma visited_within_window: "visited ws w a b \<Longrightarrow> within_window ws w a b"
  unfolding visited_def within_window_def
proof (elim exE conjE)
  fix i j
  assume h: "int i + w < int (length ws)" "1 \<le> j" "int j \<le> w"
    "ws ! i = a" "ws ! (i + j) = b" "a \<noteq> b"
  have "i < length ws" "i + j < length ws" "i \<noteq> i + j" "\<bar>int i - int (i + j)\<bar> \<le> w"
    using h by simp_all
  with h show "\<exists>i j. i < length ws \<and> j < length ws \<and> i \<noteq> j \<and>
                 \<bar>int i - int j\<bar> \<le> w \<and> ws ! i = a \<and> ws ! j = b"
    by blast
qed

lemma within_window_sym: "within_window ws w a b \<Longrightarrow> within_window ws w b a"
  unfolding within_window_def by (metis abs_minus_commute)

lemma visited_distinct: "visited ws w a b \<Longrightarrow> a \<noteq> b"
  unfolding visited_def by blast

lemma linked_within_window:
  assumes "linked ws w a b"
  shows "a \<noteq> b \<and> within_window ws w a b"
proof -
  from assms consider "visited ws w a b" | "visited ws w b a"
    unfolding linked_def by blast
  then show ?thesis
  proof cases
    case 1
    then show ?thesis
      using visited_distinct visited_within_window by blast
  next
    case 2
    then have "b \<noteq> a" "within_window ws w b a"
      using visited_distinct visited_within_window by blast+
    then show ?thesis
      using within_window_sym by blast
  qed
qed

section \<open>Claims about the graph builder\<close>

text \<open>
  Claim C1, as the specification states it: every pair of different words at a position
  \<open>i\<close> and an offset \<open>1 \<le> j \<le> w\<close> with \<open>i + j\<close> in bounds is an edge of the built
  graph. The code does not do that: the outer loop is \<open>range(len(words) - window_size)\<close>,
  so the last \<open>w\<close> positions never start a pair. In \<open>[a, b, c]\<close> with window 2 the words
  at positions 1 and 2 are adjacent and different, and the built graph has no edge between
  them.
\<close>

theorem build_graph_misses_tail_pair:
  "(1::nat) + 1 < length [''a'', ''b'', ''c''] \<and>
   [''a'', ''b'', ''c''] ! 1 = ''b'' \<and> [''a'', ''b'', ''c''] ! (1 + 1) = ''c'' \<and>
   build_graph [''a'', ''b'', ''c''] 2 =
     Inr \<lparr>nodes = [''a'', ''b'', ''c''], edges = [(''a'', ''b''), (''a'', ''c'')]\<rparr> \<and>
   \<not> has_edge \<lparr>nodes = [''a'', ''b'', ''c''], edges = [(''a'', ''b''), (''a'', ''c'')]\<rparr>
       ''b'' ''c''"
  by (simp add: build_graph_def py_range_def upto.simps getitem_def add_edge_def
      add_node_def has_edge_def empty_graph_def)

text \<open>
  Claim C1, amended to what the code does: for a positive window size \<open>w\<close>, every
  position \<open>i\<close> whose whole window is in bounds (\<open>i + w < length T\<close>) and every offset
  \<open>1 \<le> j \<le> w\<close>, the builder returns a graph in which \<open>T[i]\<close> and \<open>T[i + j]\<close> are joined
  by an edge, unless the two words are equal.
\<close>

theorem build_graph_links_full_windows:
  assumes "0 < w" and "int i + w < int (length T)" and "1 \<le> j" and "int j \<le> w"
    and "T ! i \<noteq> T ! (i + j)"
  shows "\<exists>G. build_graph T w = Inr G \<and> has_edge G (T ! i) (T ! (i + j))"
proof -
  from build_graph_edges [OF assms(1), of T]
  obtain G where G: "build_graph T w = Inr G"
    and e: "\<And>a b. has_edge G a b = linked T w a b"
    by blast
  have "visited T w (T ! i) (T ! (i + j))"
    unfolding visited_def using assms(2-5) by blast
  then have "has_edge G (T ! i) (T ! (i + j))"
    by (simp add: e linked_def)
  with G show ?thesis by blast
qed

theorem build_graph_links_full_windows_witness:
  "\<exists>G. build_graph [''a'', ''b'', ''c''] 2 = Inr G \<and> has_edge G ''a'' ''c''"
  using build_graph_links_full_windows [of 2 0 "[''a'', ''b'', ''c'']" 2] by simp

text \<open>
  Claim C3, as the specification states it: a window size \<open>w \<le> 0\<close> makes the builder
  fail with an InvalidArgument condition. The code has no such check: with window size 0
  the inner range \<open>range(1, 1)\<close> is empty and the builder returns the empty graph.
\<close>

theorem build_graph_zero_window_returns:
  "build_graph [''a'', ''b''] 0 = Inr empty_graph"
  by (simp add: build_graph_def outer_loop_no_offsets)

text \<open>
  Claim C3, amended to what the code does: for every token sequence and every window
  size \<open>w \<le> 0\<close> the builder raises nothing and returns the graph with no node and no
  edge.
\<close>

theorem build_graph_nonpositive_window:
  "w \<le> 0 \<Longrightarrow> build_graph T w = Inr \<lparr>nodes = [], edges = []\<rparr>"
  by (simp add: build_graph_def outer_loop_no_offsets empty_graph_def)

theorem build_graph_nonpositive_window_witness:
  "build_graph [''flood'', ''river'', ''bridge''] (- 1) = Inr \<lparr>nodes = [], edges = []\<rparr>"
  using build_graph_nonpositive_window [of "- 1" "[''flood'', ''river'', ''bridge'']"] by simp

text \<open>
  Claim C5: for every token sequence \<open>T\<close> and every window size \<open>w \<ge> 1\<close> the builder
  returns a graph with no self-loop, and the two endpoints of every edge are words that
  occur at two different positions of \<open>T\<close> at most \<open>w\<close> apart.
\<close>

theorem build_graph_no_self_loop_within_window:
  assumes "1 \<le> w"
  shows "\<exists>G. build_graph T w = Inr G \<and>
           (\<forall>a b. has_edge G a b \<longrightarrow> a \<noteq> b \<and> within_window T w a b)"
proof -
  from assms have "0 < w" by simp
  from build_graph_edges [OF this, of T]
  obtain G where G: "build_graph T w = Inr G"
    and e: "\<And>a b. has_edge G a b = linked T w a b"
    by blast
  have "a \<noteq> b \<and> within_window T w a b" if "has_edge G a b" for a b
    using that linked_within_window by (simp add: e)
  with G show ?thesis by blast
qed

theorem build_graph_no_self_loop_within_window_witness:
  "has_edge \<lparr>nodes = [''a'', ''b'', ''c''], edges = [(''a'', ''b''), (''a'', ''c'')]\<rparr> ''c'' ''a'' \<and>
   ''c'' \<noteq> ''a'' \<and> within_window [''a'', ''b'', ''c''] 2 ''c'' ''a''"
proof -
  have run: "build_graph [''a'', ''b'', ''c''] 2 =
      Inr \<lparr>nodes = [''a'', ''b'', ''c''], edges = [(''a'', ''b''), (''a'', ''c'')]\<rparr>"
    by (simp add: build_graph_def py_range_def upto.simps getitem_def add_edge_def
        add_node_def has_edge_def empty_graph_def)
  have e: "has_edge \<lparr>nodes = [''a'', ''b'', ''c''], edges = [(''a'', ''b''), (''a'', ''c'')]\<rparr>
      ''c'' ''a''"
    by (simp add: has_edge_def)
  from build_graph_no_self_loop_within_window [of 2 "[''a'', ''b'', ''c'']"] run e
  show ?thesis by auto
qed

text \<open>
  Claim C8, as the specification states it: for the tokens flood, river, flood, bridge,
  river, flood and window 2 the graph has no bridge-flood edge. It has one: bridge at
  position 3 stands next to flood at position 2, and the loop adds the pair at \<open>i = 2\<close>,
  \<open>j = 1\<close>.
\<close>

theorem flood_example_has_bridge_flood_edge:
  "build_graph [''flood'', ''river'', ''flood'', ''bridge'', ''river'', ''flood''] 2 =
     Inr \<lparr>nodes = [''flood'', ''river'', ''bridge''],
          edges = [(''flood'', ''river''), (''river'', ''bridge''), (''flood'', ''bridge'')]\<rparr> \<and>
   has_edge \<lparr>nodes = [''flood'', ''river'', ''bridge''],
          edges = [(''flood'', ''river''), (''river'', ''bridge''), (''flood'', ''bridge'')]\<rparr>
     ''bridge'' ''flood''"
  by (simp add: build_graph_def py_range_def upto.simps getitem_def add_edge_def
      add_node_def has_edge_def empty_graph_def)

text \<open>
  Claim C8, amended to what the code does: for the same tokens and window 2 the builder
  returns a graph on flood, river and bridge whose edges are {flood, river},
  {river, bridge} and {flood, bridge}, with no self-loop on the repeated flood.
\<close>

theorem flood_example_edges:
  "\<exists>G. build_graph [''flood'', ''river'', ''flood'', ''bridge'', ''river'', ''flood''] 2 = Inr G \<and>
     nodes G = [''flood'', ''river'', ''bridge''] \<and>
     has_edge G ''flood'' ''river'' \<and> has_edge G ''river'' ''bridge'' \<and>
     has_edge G ''bridge'' ''flood'' \<and>
     \<not> has_edge G ''flood'' ''flood'' \<and> \<not> has_edge G ''river'' ''river'' \<and>
     \<not> has_edge G ''bridge'' ''bridge'' \<and> length (edges G) = 3"
  by (simp add: build_graph_def py_range_def upto.simps getitem_def add_edge_def
      add_node_def has_edge_def empty_graph_def)

section \<open>The ranked index\<close>

text \<open>
  The score map \<open>pr\<close> is a Python dict: an association list in insertion order, which
  for \<open>nx.pagerank\<close> is the node order of the graph. Scores are modelled as real
  numbers. Lines 145-147 of app.py build the table:
  \<^verbatim>\<open>
  df = pd.DataFrame(pr.items(), columns=['Kata', 'PageRank'])
  df = df.sort_values(by='PageRank', ascending=False).reset_index(drop=True)
  df.insert(0, 'ID', range(1, len(df) + 1))
  \<close>
  \<open>sort_values\<close> is given the one column \<open>PageRank\<close>: the permutation of the rows is
  computed from the scores alone and no term takes part in it. The model sorts on the
  score, descending, and takes rows of equal score in the order of the score map, as
  pandas does on a short table (it reverses the rows, sorts the scores ascending and
  reverses the result); on longer tables the order of equal scores is left to the
  library's sort, and no property below depends on it.
\<close>

type_synonym scores = "(string \<times> real) list"

definition sort_values_desc :: "scores \<Rightarrow> scores" where
  "sort_values_desc rows = sort_key (\<lambda>(t, s). - s) rows"

definition ranked_index :: "scores \<Rightarrow> (int \<times> string \<times> real) list" where
  "ranked_index pr =
     (let rows = sort_values_desc pr
      in zip (py_range 1 (int (length rows) + 1)) rows)"

lemma length_py_range_from_1: "length (py_range 1 (int n + 1)) = n"
  by (simp add: py_range_def)

lemma py_range_from_1: "py_range 1 (int n + 1) = map int [1..<Suc n]"
proof (induction n)
  case 0
  then show ?case by (simp add: py_range_def)
next
  case (Suc n)
  have "[1..int (Suc n)] = [1..int n] @ [int (Suc n)]"
    using upto_rec2 [of 1 "int (Suc n)"] by simp
  with Suc show ?case by (simp add: py_range_def)
qed

lemma ranked_index_ids: "map fst (ranked_index pr) = map int [1..<Suc (length pr)]"
  using py_range_from_1 [of "length pr"]
  by (simp add: ranked_index_def sort_values_desc_def Let_def length_py_range_from_1
      del: upt_Suc)

lemma ranked_index_rows: "map snd (ranked_index pr) = sort_values_desc pr"
  by (simp add: ranked_index_def Let_def length_py_range_from_1)

lemma sort_values_desc_sorted:
  "sorted_wrt (\<lambda>x y. snd x \<ge> snd y) (sort_values_desc pr)"
proof -
  have "sorted (map (\<lambda>(t, s). - s) (sort_values_desc pr))"
    unfolding sort_values_desc_def by (rule sorted_sort_key)
  then show ?thesis
    by (simp add: sorted_wrt_map case_prod_beta)
qed

lemma ranked_index_sorted:
  "sorted_wrt (\<lambda>x y. snd (snd x) \<ge> snd (snd y)) (ranked_index pr)"
proof -
  have "sorted_wrt (\<lambda>x y. snd x \<ge> snd y) (map snd (ranked_index pr))"
    unfolding ranked_index_rows by (rule sort_values_desc_sorted)
  then show ?thesis
    by (simp add: sorted_wrt_map)
qed

text \<open>
  Claim C2, as the specification states it: entries of equal score are listed in
  ascending lexicographic order of the term. The code gives the sort no term key: from
  the score map \<open>{"b": 0.33, "a": 0.33}\<close> the term b is ranked first and a second,
  although \<open>a < b\<close>.
\<close>

theorem ranked_index_tie_not_lexicographic:
  "ranked_index [(''b'', 0.33), (''a'', 0.33)] = [(1, ''b'', 0.33), (2, ''a'', 0.33)] \<and>
   ''a'' < ''b''"
  by (simp add: ranked_index_def sort_values_desc_def py_range_def upto.simps)

text \<open>
  Claim C2, amended to what the code does: the ranked index holds the entries of the
  score map, each once, sorted by score descending, with the rank positions 1..N in that
  order; the term is no sort key. The score map \<open>{"a": 0.33, "b": 0.33}\<close>, in that
  order, yields a before b.
\<close>

theorem ranked_index_descending_scores:
  "map fst (ranked_index pr) = map int [1..<Suc (length pr)] \<and>
   mset (map snd (ranked_index pr)) = mset pr \<and>
   sorted_wrt (\<lambda>x y. snd (snd x) \<ge> snd (snd y)) (ranked_index pr) \<and>
   ranked_index [(''a'', 0.33), (''b'', 0.33)] = [(1, ''a'', 0.33), (2, ''b'', 0.33)]"
proof -
  have "mset (map snd (ranked_index pr)) = mset pr"
    unfolding ranked_index_rows by (simp add: sort_values_desc_def)
  moreover have "ranked_index [(''a'', 0.33), (''b'', 0.33)] = [(1, ''a'', 0.33), (2, ''b'', 0.33)]"
    by (simp add: ranked_index_def sort_values_desc_def py_range_def upto.simps)
  ultimately show ?thesis
    using ranked_index_ids [of pr] ranked_index_sorted [of pr] by blast
qed

section \<open>The graph view\<close>

text \<open>
  Lines 182-210 of app.py choose what is shown. \<open>df.head(max_words)\<close> keeps the first
  \<open>max_words\<close> rows (all but the last \<open>-max_words\<close> when the count is negative), and
  \<open>top_words\<close> is their \<open>Kata\<close> column. The multiselect returns \<open>selected_words\<close>,
  which is \<open>top_words\<close> unless the user changes it.
\<close>

definition head :: "int \<Rightarrow> 'a list \<Rightarrow> 'a list" where
  "head n rows = (if 0 \<le> n then take (nat n) rows else take (nat (int (length rows) + n)) rows)"

definition top_words :: "int \<Rightarrow> (int \<times> string \<times> real) list \<Rightarrow> string list" where
  "top_words max_words df = map (\<lambda>(i, t, s). t) (head max_words df)"

text \<open>
  \<open>G.subgraph(selected_words)\<close> is the induced subgraph: the nodes of \<open>G\<close> that are
  selected and the edges of \<open>G\<close> between two of them. The model lists them in the order
  of \<open>G\<close>; the order in which networkx and pyvis enumerate them is not modelled, and the
  properties below read the nodes as a set. Line 210:
  \<open>G_vis = G.subgraph(selected_words) if selected_words else G\<close>.
\<close>

definition subgraph :: "graph \<Rightarrow> string list \<Rightarrow> graph" where
  "subgraph G sel =
     \<lparr>nodes = filter (\<lambda>v. v \<in> set sel) (nodes G),
      edges = filter (\<lambda>(a, b). a \<in> set sel \<and> b \<in> set sel) (edges G)\<rparr>"

definition graph_view :: "graph \<Rightarrow> string list \<Rightarrow> graph" where
  "graph_view G selected_words = (if selected_words \<noteq> [] then subgraph G selected_words else G)"

text \<open>
  The search terms of lines 204-208:
  \<^verbatim>\<open>[w.strip().lower() for w in search_input.split(",") if w.strip()]\<close>.
  A character of a string is read as the code point of that number, 0 to 255. On such
  text \<open>strip\<close> and \<open>lower\<close> are Python's \<open>str.strip()\<close> and \<open>str.lower()\<close>: the
  white space is the characters 9 to 13, 28 to 31, the space, 133 (next line) and 160
  (no-break space); the capital letters are A to Z (65 to 90) and the accented capitals
  192 to 222 without the multiplication sign 215, and each has its small letter 32
  places further on. Text with a code point above 255 has no string in this model.
\<close>

definition is_space :: "char \<Rightarrow> bool" where
  "is_space c = (of_char c \<in> {9, 10, 11, 12, 13, 28, 29, 30, 31, 32, 133, 160 :: nat})"

definition strip :: "string \<Rightarrow> string" where
  "strip s = rev (dropWhile is_space (rev (dropWhile is_space s)))"

definition is_upper :: "char \<Rightarrow> bool" where
  "is_upper c =
     ((65 \<le> (of_char c :: nat) \<and> (of_char c :: nat) \<le> 90) \<or>
      (192 \<le> (of_char c :: nat) \<and> (of_char c :: nat) \<le> 222 \<and> (of_char c :: nat) \<noteq> 215))"

definition lower_char :: "char \<Rightarrow> char" where
  "lower_char c = (if is_upper c then char_of (of_char c + 32 :: nat) else c)"

definition lower :: "string \<Rightarrow> string" where
  "lower s = map lower_char s"

text \<open>\<open>s.split(sep)\<close>: the pieces between the separators, one more than there are separators.\<close>

fun split_on :: "char \<Rightarrow> string \<Rightarrow> string list" where
  "split_on sep [] = [[]]"
| "split_on sep (c # cs) =
     (if c = sep then [] # split_on sep cs
      else (case split_on sep cs of
              [] \<Rightarrow> [[c]]
            | p # ps \<Rightarrow> (c # p) # ps))"

definition search_terms :: "string \<Rightarrow> string list" where
  "search_terms search_input =
     map (\<lambda>w. lower (strip w)) (filter (\<lambda>w. strip w \<noteq> []) (split_on CHR '','' search_input))"

text \<open>
  The style of a node, lines 228-241: the attributes the loop writes. \<open>borderWidth\<close> is
  \<open>None\<close> where the loop leaves it unset. The tooltip of line 243 is a formatted text of
  the word and the score and is not modelled. \<open>pr.get(word, 0.001)\<close> is \<open>get_score\<close>.
\<close>

record styled =
  node_size :: real
  physics :: bool
  color :: string
  borderWidth :: "nat option"

definition get_score :: "scores \<Rightarrow> string \<Rightarrow> real \<Rightarrow> real" where
  "get_score pr word d = (case map_of pr word of Some s \<Rightarrow> s | None \<Rightarrow> d)"

definition style_node :: "scores \<Rightarrow> string list \<Rightarrow> string \<Rightarrow> styled" where
  "style_node pr terms word =
     (let score = get_score pr word 0.001;
          node = \<lparr>node_size = score * 1000, physics = False, color = ''#97C2FC'',
                  borderWidth = None\<rparr>
      in if word \<in> set terms
         then node\<lparr>color := ''#FF4B4B'', node_size := score * 1600, borderWidth := Some 3\<rparr>
         else node)"

text \<open>
  The loop \<open>for node in net.nodes\<close> writes the style into every node of \<open>G_vis\<close>. Its
  result is the style of each node, whatever the order in which pyvis lists them: a map
  from the nodes of \<open>G_vis\<close> to their styles.
\<close>

definition styled_nodes ::
  "graph \<Rightarrow> scores \<Rightarrow> string list \<Rightarrow> string \<Rightarrow> (string \<rightharpoonup> styled)" where
  "styled_nodes G pr selected_words search_input =
     (\<lambda>word. if word \<in> set (nodes (graph_view G selected_words))
             then Some (style_node pr (search_terms search_input) word)
             else None)"

subsection \<open>Search terms are trimmed and in lower case\<close>

lemma of_char_lower_char:
  "(of_char (lower_char c) :: nat) = (if is_upper c then of_char c + 32 else of_char c)"
  by (auto simp: lower_char_def is_upper_def)

lemma is_space_lower_char [simp]: "is_space (lower_char c) = is_space c"
  unfolding is_space_def of_char_lower_char by (auto simp: is_upper_def)

lemma not_upper_lower_char [simp]: "\<not> is_upper (lower_char c)"
proof (cases "is_upper c")
  case True
  then show ?thesis
    unfolding is_upper_def [of "lower_char c"] of_char_lower_char
    by (auto simp: is_upper_def)
next
  case False
  then show ?thesis by (simp add: lower_char_def)
qed

lemma lower_char_idem [simp]: "lower_char (lower_char c) = lower_char c"
  unfolding lower_char_def [of "lower_char c"] by simp

lemma lower_idem [simp]: "lower (lower s) = lower s"
  by (simp add: lower_def)

lemma lower_no_upper: "c \<in> set (lower s) \<Longrightarrow> \<not> is_upper c"
  by (auto simp: lower_def)

lemma dropWhile_is_space_lower:
  "dropWhile is_space (lower s) = lower (dropWhile is_space s)"
  by (simp add: lower_def dropWhile_map comp_def)

lemma strip_lower: "strip (lower s) = lower (strip s)"
proof -
  have "rev (lower s) = lower (rev s)" for s
    by (simp add: lower_def rev_map)
  then show ?thesis
    by (simp add: strip_def dropWhile_is_space_lower)
qed

lemma dropWhile_id: "xs = [] \<or> \<not> P (hd xs) \<Longrightarrow> dropWhile P xs = xs"
  by (cases xs) auto

text \<open>What \<open>strip\<close> returns neither starts nor ends with white space.\<close>

lemma strip_ends:
  assumes "strip s \<noteq> []"
  shows "\<not> is_space (hd (strip s)) \<and> \<not> is_space (last (strip s))"
proof -
  define d where "d = dropWhile is_space s"
  define e where "e = dropWhile is_space (rev d)"
  have s: "strip s = rev e"
    by (simp add: strip_def d_def e_def)
  with assms have e: "e \<noteq> []" by simp
  have d0: "d = [] \<or> \<not> is_space (hd d)"
    unfolding d_def using hd_dropWhile [of is_space s] by blast
  have e0: "\<not> is_space (hd e)"
    unfolding e_def using hd_dropWhile [of is_space "rev d"] e by (simp add: e_def)
  have "rev d = takeWhile is_space (rev d) @ e"
    by (simp add: e_def)
  then have "d = rev e @ rev (takeWhile is_space (rev d))"
    by (metis rev_append rev_rev_ident)
  with e have "d \<noteq> [] \<and> hd (rev e) = hd d"
    by (metis hd_append2 append_is_Nil_conv rev_is_Nil_conv)
  with d0 have "\<not> is_space (hd (rev e))" by auto
  moreover have "last (rev e) = hd e"
    using e by (simp add: last_rev)
  ultimately show ?thesis
    using e0 by (simp add: s)
qed

lemma strip_idem [simp]: "strip (strip s) = strip s"
proof (cases "strip s = []")
  case True
  have "strip [] = []" by (simp add: strip_def)
  with True show ?thesis by simp
next
  case False
  from strip_ends [OF False]
  have h: "\<not> is_space (hd (strip s))" and l: "\<not> is_space (last (strip s))" by simp_all
  have 1: "dropWhile is_space (strip s) = strip s"
    using h by (intro dropWhile_id) simp
  have "\<not> is_space (hd (rev (strip s)))"
    using l False by (simp add: hd_rev)
  then have 2: "dropWhile is_space (rev (strip s)) = rev (strip s)"
    by (intro dropWhile_id) simp
  show ?thesis
    unfolding strip_def [of "strip s"] by (simp add: 1 2)
qed

text \<open>
  The search terms are the pieces of the input between the commas that hold more than
  white space, each trimmed and put in lower case; none is empty, starts or ends with
  white space, or holds a capital letter.
\<close>

lemma set_search_terms:
  "set (search_terms search_input) =
     {lower (strip w) | w. w \<in> set (split_on CHR '','' search_input) \<and> strip w \<noteq> []}"
  by (auto simp: search_terms_def)

lemma search_terms_clean:
  assumes "t \<in> set (search_terms search_input)"
  shows "t \<noteq> [] \<and> \<not> is_space (hd t) \<and> \<not> is_space (last t) \<and> list_all (\<lambda>c. \<not> is_upper c) t"
proof -
  from assms obtain w where w: "strip w \<noteq> []" and t: "t = lower (strip w)"
    by (auto simp: search_terms_def)
  from strip_ends [OF w]
  have h: "\<not> is_space (hd (strip w))" and l: "\<not> is_space (last (strip w))" by simp_all
  have "t \<noteq> []" using w t by (simp add: lower_def)
  moreover have "\<not> is_space (hd t)"
    using w h by (simp add: t lower_def hd_map)
  moreover have "\<not> is_space (last t)"
    using w l by (simp add: t lower_def last_map)
  moreover have "list_all (\<lambda>c. \<not> is_upper c) t"
    by (simp add: t list_all_iff lower_no_upper)
  ultimately show ?thesis by blast
qed

lemma head_subset:
  assumes "1 \<le> m" and "m \<le> n"
  shows "set (head m rows) \<subseteq> set (head n rows)"
  using assms by (simp add: head_def set_take_subset_set_take)

lemma head_empty: "1 \<le> m \<Longrightarrow> head m rows = [] \<Longrightarrow> rows = []"
  by (simp add: head_def split: if_splits)


text \<open>
  Claim C10: with the multiselect left at its default (the top words themselves), a
  larger cutoff never removes a node: for cutoffs \<open>1 \<le> m \<le> n\<close>, every node of the
  subgraph shown at cutoff \<open>m\<close> is a node of the subgraph shown at cutoff \<open>n\<close>. The
  cutoff is at least 1, as the number input of line 182 has \<open>min_value=1\<close>.
\<close>

theorem graph_view_monotone_in_cutoff:
  assumes "1 \<le> m" and "m \<le> n"
  shows "set (nodes (graph_view G (top_words m df))) \<subseteq> set (nodes (graph_view G (top_words n df)))"
proof (cases "top_words m df = []")
  case True
  then have "df = []"
    using head_empty [OF assms(1), of df] by (simp add: top_words_def)
  then show ?thesis
    by (simp add: top_words_def head_def graph_view_def)
next
  case False
  have sub: "set (top_words m df) \<subseteq> set (top_words n df)"
    using head_subset [OF assms, of df] by (simp add: top_words_def image_mono)
  with False have "top_words n df \<noteq> []" by auto
  with False sub show ?thesis
    by (auto simp: graph_view_def subgraph_def)
qed

theorem graph_view_monotone_in_cutoff_witness:
  "set (nodes (graph_view
       \<lparr>nodes = [''flood'', ''river'', ''bridge''],
        edges = [(''flood'', ''river''), (''river'', ''bridge''), (''flood'', ''bridge'')]\<rparr>
       (top_words 1 [(1, ''river'', 0.4), (2, ''flood'', 0.35), (3, ''bridge'', 0.25)])))
   \<subseteq> set (nodes (graph_view
       \<lparr>nodes = [''flood'', ''river'', ''bridge''],
        edges = [(''flood'', ''river''), (''river'', ''bridge''), (''flood'', ''bridge'')]\<rparr>
       (top_words 2 [(1, ''river'', 0.4), (2, ''flood'', 0.35), (3, ''bridge'', 0.25)]))) \<and>
   nodes (graph_view
       \<lparr>nodes = [''flood'', ''river'', ''bridge''],
        edges = [(''flood'', ''river''), (''river'', ''bridge''), (''flood'', ''bridge'')]\<rparr>
       (top_words 2 [(1, ''river'', 0.4), (2, ''flood'', 0.35), (3, ''bridge'', 0.25)]))
     = [''flood'', ''river'']"
  using graph_view_monotone_in_cutoff [of 1 2
      "\<lparr>nodes = [''flood'', ''river'', ''bridge''],
        edges = [(''flood'', ''river''), (''river'', ''bridge''), (''flood'', ''bridge'')]\<rparr>"
      "[(1, ''river'', 0.4), (2, ''flood'', 0.35), (3, ''bridge'', 0.25)]"]
  by (simp add: graph_view_def subgraph_def top_words_def head_def)

text \<open>
  Claim C9: every node of the shown subgraph, and no other word, gets a style. A node
  whose term is in lower case, as every token of \<open>process_text\<close> is (line 72), is
  emphasized (colour \<open>#FF4B4B\<close>, size score times 1600, border width 3) exactly when
  its lower-cased term is one of the search terms; otherwise it keeps the default colour
  \<open>#97C2FC\<close> and the size score times 1000. The score of a term that the score map does
  not hold is 0.001. The search terms are the trimmed, lower-cased pieces of the search
  text between its commas, without the pieces that are empty or white space only: none
  of them is empty, starts or ends with white space, or holds a capital letter.
\<close>

theorem styled_nodes_highlight:
  assumes "word \<in> set (nodes (graph_view G selected_words))"
    and "lower word = word"
  shows "styled_nodes G pr selected_words search_input word =
       Some (if lower word \<in> set (search_terms search_input)
             then \<lparr>node_size = get_score pr word 0.001 * 1600, physics = False,
                   color = ''#FF4B4B'', borderWidth = Some 3\<rparr>
             else \<lparr>node_size = get_score pr word 0.001 * 1000, physics = False,
                   color = ''#97C2FC'', borderWidth = None\<rparr>) \<and>
     get_score pr word 0.001 = (case map_of pr word of Some s \<Rightarrow> s | None \<Rightarrow> 0.001) \<and>
     dom (styled_nodes G pr selected_words search_input) = set (nodes (graph_view G selected_words)) \<and>
     set (search_terms search_input) =
       {lower (strip w) | w. w \<in> set (split_on CHR '','' search_input) \<and> strip w \<noteq> []} \<and>
     (\<forall>t \<in> set (search_terms search_input).
        t \<noteq> [] \<and> \<not> is_space (hd t) \<and> \<not> is_space (last t) \<and> list_all (\<lambda>c. \<not> is_upper c) t)"
proof -
  have "styled_nodes G pr selected_words search_input word =
      Some (style_node pr (search_terms search_input) word)"
    using assms(1) by (simp add: styled_nodes_def)
  also have "style_node pr (search_terms search_input) word =
      (if lower word \<in> set (search_terms search_input)
       then \<lparr>node_size = get_score pr word 0.001 * 1600, physics = False,
             color = ''#FF4B4B'', borderWidth = Some 3\<rparr>
       else \<lparr>node_size = get_score pr word 0.001 * 1000, physics = False,
             color = ''#97C2FC'', borderWidth = None\<rparr>)"
    unfolding assms(2) by (simp add: style_node_def Let_def)
  finally have style: "styled_nodes G pr selected_words search_input word =
       Some (if lower word \<in> set (search_terms search_input)
             then \<lparr>node_size = get_score pr word 0.001 * 1600, physics = False,
                   color = ''#FF4B4B'', borderWidth = Some 3\<rparr>
             else \<lparr>node_size = get_score pr word 0.001 * 1000, physics = False,
                   color = ''#97C2FC'', borderWidth = None\<rparr>)" .
  have score: "get_score pr word 0.001 = (case map_of pr word of Some s \<Rightarrow> s | None \<Rightarrow> 0.001)"
    by (simp add: get_score_def split: option.splits)
  have dom: "dom (styled_nodes G pr selected_words search_input) =
      set (nodes (graph_view G selected_words))"
    by (auto simp: styled_nodes_def dom_def)
  have clean: "\<forall>t \<in> set (search_terms search_input).
      t \<noteq> [] \<and> \<not> is_space (hd t) \<and> \<not> is_space (last t) \<and> list_all (\<lambda>c. \<not> is_upper c) t"
    using search_terms_clean by blast
  from style score dom set_search_terms [of search_input] clean show ?thesis
    by blast
qed

text \<open>
  On the graph of flood, river and bridge, with only flood in the score map, flood and
  bridge selected and the search text \<open>" FLOOD , ,river"\<close> padded with a no-break space
  on each side: the search terms are flood and river, flood is emphasized at size 800,
  and bridge keeps the default style at the default score.
\<close>

lemma search_terms_example:
  "search_terms (CHR 0xA0 # '' FLOOD , ,river'' @ [CHR 0xA0]) = [''flood'', ''river'']"
  by code_simp

lemma lower_example: "lower ''flood'' = ''flood'' \<and> lower [CHR 0xC9, CHR ''A''] = [CHR 0xE9, CHR ''a'']"
  by code_simp

theorem styled_nodes_highlight_witness:
  "search_terms (CHR 0xA0 # '' FLOOD , ,river'' @ [CHR 0xA0]) = [''flood'', ''river''] \<and>
   styled_nodes
     \<lparr>nodes = [''flood'', ''river'', ''bridge''],
      edges = [(''flood'', ''river''), (''river'', ''bridge''), (''flood'', ''bridge'')]\<rparr>
     [(''flood'', 0.5)] [''flood'', ''bridge''] (CHR 0xA0 # '' FLOOD , ,river'' @ [CHR 0xA0])
     ''flood'' =
     Some \<lparr>node_size = 800, physics = False, color = ''#FF4B4B'', borderWidth = Some 3\<rparr> \<and>
   styled_nodes
     \<lparr>nodes = [''flood'', ''river'', ''bridge''],
      edges = [(''flood'', ''river''), (''river'', ''bridge''), (''flood'', ''bridge'')]\<rparr>
     [(''flood'', 0.5)] [''flood'', ''bridge''] (CHR 0xA0 # '' FLOOD , ,river'' @ [CHR 0xA0])
     ''bridge'' =
     Some \<lparr>node_size = 1, physics = False, color = ''#97C2FC'', borderWidth = None\<rparr> \<and>
   dom (styled_nodes
     \<lparr>nodes = [''flood'', ''river'', ''bridge''],
      edges = [(''flood'', ''river''), (''river'', ''bridge''), (''flood'', ''bridge'')]\<rparr>
     [(''flood'', 0.5)] [''flood'', ''bridge''] (CHR 0xA0 # '' FLOOD , ,river'' @ [CHR 0xA0])) =
     {''flood'', ''bridge''}"
proof -
  define G where "G = \<lparr>nodes = [''flood'', ''river'', ''bridge''],
      edges = [(''flood'', ''river''), (''river'', ''bridge''), (''flood'', ''bridge'')]\<rparr>"
  define inp where "inp = CHR 0xA0 # '' FLOOD , ,river'' @ [CHR 0xA0]"
  have terms: "search_terms inp = [''flood'', ''river'']"
    unfolding inp_def by (rule search_terms_example)
  have view: "nodes (graph_view G [''flood'', ''bridge'']) = [''flood'', ''bridge'']"
    by (simp add: G_def graph_view_def subgraph_def)
  have low: "lower ''flood'' = ''flood''" "lower ''bridge'' = ''bridge''"
    by code_simp+
  have f: "''flood'' \<in> set (nodes (graph_view G [''flood'', ''bridge'']))"
    and b: "''bridge'' \<in> set (nodes (graph_view G [''flood'', ''bridge'']))"
    by (simp_all add: view)
  from styled_nodes_highlight [OF f low(1), of "[(''flood'', 0.5)]" inp]
  have 1: "styled_nodes G [(''flood'', 0.5)] [''flood'', ''bridge''] inp ''flood'' =
      Some \<lparr>node_size = 800, physics = False, color = ''#FF4B4B'', borderWidth = Some 3\<rparr>"
    and 3: "dom (styled_nodes G [(''flood'', 0.5)] [''flood'', ''bridge''] inp) =
      {''flood'', ''bridge''}"
    by (simp_all add: terms low view)
  from styled_nodes_highlight [OF b low(2), of "[(''flood'', 0.5)]" inp]
  have 2: "styled_nodes G [(''flood'', 0.5)] [''flood'', ''bridge''] inp ''bridge'' =
      Some \<lparr>node_size = 1, physics = False, color = ''#97C2FC'', borderWidth = None\<rparr>"
    by (simp add: terms low)
  from terms 1 2 3 show ?thesis
    unfolding G_def inp_def by simp
qed

section \<open>The pipeline of \<open>main\<close>\<close>

text \<open>
  What \<open>main\<close> keeps in \<open>st.session_state\<close>: \<open>paper_data\<close>, a dict from file names
  to the graph, the score map, the table and the word count of a paper, and
  \<open>active_file_key\<close>.
\<close>

record paper =
  paper_graph :: graph
  paper_pagerank :: scores
  paper_df :: "(int \<times> string \<times> real) list"
  paper_count :: nat

record session =
  paper_data :: "(string \<times> paper) list"
  active_file_key :: "string option"

text \<open>
  Lines 136-155, for one uploaded file, given by its name and the words that
  \<open>process_text\<close> returns for it. \<open>nx.pagerank\<close> is a parameter \<open>rank\<close> of the
  model: a function of the graph that returns a score map or raises.
\<close>

definition process_file ::
  "(graph \<Rightarrow> error + scores) \<Rightarrow> string \<Rightarrow> string list \<Rightarrow> int \<Rightarrow> session \<Rightarrow> error + session"
where
  "process_file rank name words window_size st =
     (if name \<notin> fst ` set (paper_data st) then
        (if length words > 5 then
           (case build_graph words window_size of
              Inl e \<Rightarrow> Inl e
            | Inr G \<Rightarrow>
                (case rank G of
                   Inl e \<Rightarrow> Inl e
                 | Inr pr \<Rightarrow>
                     Inr (st\<lparr>paper_data := paper_data st @
                               [(name, \<lparr>paper_graph = G, paper_pagerank = pr,
                                        paper_df = ranked_index pr,
                                        paper_count = length words\<rparr>)],
                             active_file_key := Some name\<rparr>)))
         else Inr st)
      else Inr st)"

text \<open>The loop \<open>for uploaded_file in uploaded_files\<close> of line 135.\<close>

fun process_files ::
  "(graph \<Rightarrow> error + scores) \<Rightarrow> (string \<times> string list) list \<Rightarrow> int \<Rightarrow> session \<Rightarrow>
   error + session"
where
  "process_files rank [] window_size st = Inr st"
| "process_files rank ((name, words) # files) window_size st =
     (case process_file rank name words window_size st of
        Inl e \<Rightarrow> Inl e
      | Inr st' \<Rightarrow> process_files rank files window_size st')"

text \<open>
  The display part, lines 158-266, by the branch it takes: with no paper stored the page
  is the message of \<open>st.info\<close>; otherwise the paper under \<open>active_file_key\<close> is the one
  the select box starts on, and \<open>files.index\<close> raises \<open>ValueError\<close> when that key is not
  a stored name. The number input of line 182 has \<open>min_value=1\<close> and
  \<open>max_value=len(df)\<close>, and raises when the table of the paper is empty. What the second
  branch draws after that is not part of this model.
\<close>

datatype page = Info string | Analysis string

definition display :: "session \<Rightarrow> error + page" where
  "display st =
     (if paper_data st \<noteq> [] then
        (case active_file_key st of
           None \<Rightarrow> Inl ValueError
         | Some k \<Rightarrow>
             (case map_of (paper_data st) k of
                None \<Rightarrow> Inl ValueError
              | Some data \<Rightarrow>
                  if paper_df data = [] then Inl StreamlitInvalidMinMaxError
                  else Inr (Analysis k)))
      else Inr (Info ''Silakan upload file PDF di sidebar.''))"

text \<open>
  One run of \<open>main\<close> on the uploaded files, the window size of the slider and the
  session it finds: the session it leaves and the page it shows.
\<close>

definition main ::
  "(graph \<Rightarrow> error + scores) \<Rightarrow> (string \<times> string list) list \<Rightarrow> int \<Rightarrow> session \<Rightarrow>
   error + session \<times> page"
where
  "main rank uploaded_files window_size st =
     (case process_files rank uploaded_files window_size st of
        Inl e \<Rightarrow> Inl e
      | Inr st' \<Rightarrow> (case display st' of Inl e \<Rightarrow> Inl e | Inr pg \<Rightarrow> Inr (st', pg)))"



text \<open>
  The call of line 143 stands in no \<open>try\<close>: an error the ranking raises ends the run.
\<close>

lemma process_file_propagates_rank_error:
  assumes "name \<notin> fst ` set (paper_data st)" and "length words > 5"
    and "build_graph words w = Inr G" and "rank G = Inl e"
  shows "process_file rank name words w st = Inl e \<and>
         main rank ((name, words) # files) w st = Inl e"
  using assms by (simp add: process_file_def main_def)

section \<open>The importance ranker\<close>

text \<open>
  \<open>main\<close> ranks with \<open>nx.pagerank(G)\<close> (line 143), a function of the networkx library,
  whose code is not part of app.py. The ranker below is the one the specification
  describes in its section 4.2, over real numbers: rounding is not modelled.
\<close>

text \<open>
  Modelled from the spec: the neighbours of a node and its degree, each undirected edge
  read in both directions.
\<close>

definition neighbors :: "graph \<Rightarrow> string \<Rightarrow> string list" where
  "neighbors G v = filter (has_edge G v) (nodes G)"

definition degree :: "graph \<Rightarrow> string \<Rightarrow> nat" where
  "degree G v = length (neighbors G v)"

text \<open>
  Modelled from the spec: the fixed parameters, damping factor 0.85, convergence
  tolerance 1e-6 and at most 100 iterations.
\<close>

definition damping :: real where
  "damping = 0.85"

definition tolerance :: real where
  "tolerance = 0.000001"

definition max_iterations :: nat where
  "max_iterations = 100"

text \<open>
  Modelled from the spec: one iteration. Every node gives an equal share of its score
  to each of its neighbours; the score of the nodes of degree 0 is spread evenly over
  all nodes; the new score is the damped sum of what a node receives plus the uniform
  share \<open>(1 - d) / N\<close>.
\<close>

definition dangling_mass :: "graph \<Rightarrow> scores \<Rightarrow> real" where
  "dangling_mass G x = (\<Sum>v\<leftarrow>filter (\<lambda>v. degree G v = 0) (nodes G). get_score x v 0)"

definition received :: "graph \<Rightarrow> scores \<Rightarrow> string \<Rightarrow> real" where
  "received G x v = (\<Sum>u\<leftarrow>neighbors G v. get_score x u 0 / real (degree G u))"

definition rank_step :: "graph \<Rightarrow> scores \<Rightarrow> scores" where
  "rank_step G x =
     map (\<lambda>v. (v, (1 - damping) / real (length (nodes G)) +
                  damping * (received G x v + dangling_mass G x / real (length (nodes G)))))
       (nodes G)"

text \<open>
  Modelled from the spec: the change between two iterates in the L1 norm, and the
  iteration, which stops as soon as the change is below the tolerance and returns the
  last iterate when the iterations are used up.
\<close>

definition l1_change :: "graph \<Rightarrow> scores \<Rightarrow> scores \<Rightarrow> real" where
  "l1_change G x y = (\<Sum>v\<leftarrow>nodes G. \<bar>get_score y v 0 - get_score x v 0\<bar>)"

fun iterate :: "nat \<Rightarrow> graph \<Rightarrow> scores \<Rightarrow> scores" where
  "iterate 0 G x = x"
| "iterate (Suc n) G x =
     (let y = rank_step G x
      in if l1_change G x y < tolerance then y else iterate n G y)"

text \<open>
  Modelled from the spec: the ranker, started from the uniform score \<open>1 / N\<close> on every
  node. On the graph without nodes the score map is empty.
\<close>

definition initial_scores :: "graph \<Rightarrow> scores" where
  "initial_scores G = map (\<lambda>v. (v, 1 / real (length (nodes G)))) (nodes G)"

definition rank :: "graph \<Rightarrow> scores" where
  "rank G = iterate max_iterations G (initial_scores G)"

subsection \<open>The score that the nodes pass on is conserved\<close>

lemma sum_list_swap:
  fixes F :: "'a \<Rightarrow> 'b \<Rightarrow> real"
  shows "(\<Sum>v\<leftarrow>xs. \<Sum>u\<leftarrow>ys. F v u) = (\<Sum>u\<leftarrow>ys. \<Sum>v\<leftarrow>xs. F v u)"
  by (induction xs) (simp_all add: sum_list_addf)

lemma sum_list_if_const:
  fixes c :: real
  shows "(\<Sum>v\<leftarrow>xs. if P v then c else 0) = c * real (length (filter P xs))"
  by (induction xs) (simp_all add: algebra_simps)

lemma degree_sym: "length (filter (\<lambda>v. has_edge G v u) (nodes G)) = degree G u"
proof -
  have "(\<lambda>v. has_edge G v u) = has_edge G u"
    using has_edge_sym by blast
  then show ?thesis by (simp add: degree_def neighbors_def)
qed

lemma mass_conserved:
  fixes f :: "string \<Rightarrow> real"
  shows "(\<Sum>v\<leftarrow>nodes G. \<Sum>u\<leftarrow>neighbors G v. f u / real (degree G u)) +
         (\<Sum>v\<leftarrow>filter (\<lambda>v. degree G v = 0) (nodes G). f v) = (\<Sum>v\<leftarrow>nodes G. f v)"
proof -
  define V where "V = nodes G"
  define h where "h u = f u / real (degree G u)" for u
  have "(\<Sum>v\<leftarrow>V. \<Sum>u\<leftarrow>neighbors G v. h u) =
        (\<Sum>v\<leftarrow>V. \<Sum>u\<leftarrow>V. if has_edge G v u then h u else 0)"
    by (simp add: neighbors_def V_def sum_list_map_filter')
  also have "\<dots> = (\<Sum>u\<leftarrow>V. \<Sum>v\<leftarrow>V. if has_edge G v u then h u else 0)"
    by (rule sum_list_swap)
  also have "\<dots> = (\<Sum>u\<leftarrow>V. h u * real (degree G u))"
    by (simp add: sum_list_if_const degree_sym V_def)
  also have "\<dots> = (\<Sum>u\<leftarrow>V. if degree G u = 0 then 0 else f u)"
    by (rule arg_cong [where f = sum_list], rule map_cong) (simp_all add: h_def)
  finally have 1: "(\<Sum>v\<leftarrow>V. \<Sum>u\<leftarrow>neighbors G v. h u) =
        (\<Sum>u\<leftarrow>V. if degree G u = 0 then 0 else f u)" .
  have 2: "(\<Sum>v\<leftarrow>filter (\<lambda>v. degree G v = 0) V. f v) =
        (\<Sum>u\<leftarrow>V. if degree G u = 0 then f u else 0)"
    by (simp add: sum_list_map_filter')
  have "(\<Sum>u\<leftarrow>V. if degree G u = 0 then 0 else f u) +
        (\<Sum>u\<leftarrow>V. if degree G u = 0 then f u else 0) =
        (\<Sum>u\<leftarrow>V. (if degree G u = 0 then 0 else f u) + (if degree G u = 0 then f u else 0))"
    by (simp add: sum_list_addf)
  also have "\<dots> = (\<Sum>u\<leftarrow>V. f u)"
    by (rule arg_cong [where f = sum_list], rule map_cong) simp_all
  finally show ?thesis
    using 1 2 by (simp add: h_def V_def)
qed

subsection \<open>Every iterate is a distribution over the nodes\<close>

text \<open>A score vector over the nodes: one entry per node, in node order.\<close>

definition score_vector :: "graph \<Rightarrow> scores \<Rightarrow> bool" where
  "score_vector G x =
     (x = map (\<lambda>v. (v, get_score x v 0)) (nodes G) \<and>
      list_all (\<lambda>v. 0 \<le> get_score x v 0) (nodes G) \<and>
      (\<Sum>v\<leftarrow>nodes G. get_score x v 0) = 1)"

lemma get_score_tabulate:
  "v \<in> set vs \<Longrightarrow> get_score (map (\<lambda>v. (v, g v)) vs) v d = g v"
  by (induction vs) (auto simp: get_score_def)

lemma tabulate_self:
  "map (\<lambda>v. (v, g v)) vs = map (\<lambda>v. (v, get_score (map (\<lambda>v. (v, g v)) vs) v 0)) vs"
  by (rule map_cong) (simp_all add: get_score_tabulate)

lemma sum_tabulate:
  "(\<Sum>v\<leftarrow>vs. get_score (map (\<lambda>v. (v, g v)) vs) v 0) = (\<Sum>v\<leftarrow>vs. g v)"
  by (rule arg_cong [where f = sum_list], rule map_cong) (simp_all add: get_score_tabulate)

lemma damping_range: "0 \<le> damping" "damping \<le> 1"
  by (simp_all add: damping_def)

lemma received_nonneg:
  assumes "list_all (\<lambda>v. 0 \<le> get_score x v 0) (nodes G)"
  shows "0 \<le> received G x v"
  unfolding received_def
proof (rule sum_list_nonneg)
  fix r assume "r \<in> set (map (\<lambda>u. get_score x u 0 / real (degree G u)) (neighbors G v))"
  then obtain u where u: "u \<in> set (nodes G)" and r: "r = get_score x u 0 / real (degree G u)"
    by (auto simp: neighbors_def)
  from assms u have "0 \<le> get_score x u 0"
    by (simp add: list_all_iff)
  then show "0 \<le> r" by (simp add: r)
qed

lemma dangling_mass_nonneg:
  assumes "list_all (\<lambda>v. 0 \<le> get_score x v 0) (nodes G)"
  shows "0 \<le> dangling_mass G x"
  unfolding dangling_mass_def
  by (rule sum_list_nonneg) (use assms in \<open>auto simp: list_all_iff\<close>)

lemma rank_step_sum:
  assumes "nodes G \<noteq> []" and "(\<Sum>v\<leftarrow>nodes G. get_score x v 0) = 1"
  shows "(\<Sum>v\<leftarrow>nodes G. (1 - damping) / real (length (nodes G)) +
            damping * (received G x v + dangling_mass G x / real (length (nodes G)))) = 1"
proof -
  define n where "n = real (length (nodes G))"
  have n: "n \<noteq> 0" using assms(1) by (simp add: n_def)
  have total: "(\<Sum>v\<leftarrow>nodes G. received G x v) + dangling_mass G x = 1"
    unfolding received_def dangling_mass_def
    using mass_conserved [where G = G and f = "\<lambda>v. get_score x v 0"] assms(2) by simp
  have "(\<Sum>v\<leftarrow>nodes G. (1 - damping) / n + damping * (received G x v + dangling_mass G x / n))
      = (\<Sum>v\<leftarrow>nodes G. (1 - damping) / n + damping * (dangling_mass G x / n)) +
        damping * (\<Sum>v\<leftarrow>nodes G. received G x v)"
    by (simp add: sum_list_addf sum_list_const_mult algebra_simps)
  also have "(\<Sum>v\<leftarrow>nodes G. (1 - damping) / n + damping * (dangling_mass G x / n))
      = n * ((1 - damping) / n + damping * (dangling_mass G x / n))"
    by (simp add: sum_list_triv n_def)
  also have "\<dots> = (1 - damping) + damping * dangling_mass G x"
    using n by (simp add: field_simps)
  finally have "(\<Sum>v\<leftarrow>nodes G. (1 - damping) / n + damping * (received G x v + dangling_mass G x / n))
      = (1 - damping) + damping * ((\<Sum>v\<leftarrow>nodes G. received G x v) + dangling_mass G x)"
    by (simp add: algebra_simps)
  then show ?thesis
    unfolding total n_def by simp
qed

lemma rank_step_vector:
  assumes "nodes G \<noteq> []" and "score_vector G x"
  shows "score_vector G (rank_step G x)"
proof -
  define g where "g v = (1 - damping) / real (length (nodes G)) +
      damping * (received G x v + dangling_mass G x / real (length (nodes G)))" for v
  have step: "rank_step G x = map (\<lambda>v. (v, g v)) (nodes G)"
    by (simp add: rank_step_def g_def)
  from assms(2) have nn: "list_all (\<lambda>v. 0 \<le> get_score x v 0) (nodes G)"
    and one: "(\<Sum>v\<leftarrow>nodes G. get_score x v 0) = 1"
    by (simp_all add: score_vector_def)
  have g0: "0 \<le> g v" for v
    unfolding g_def
    using received_nonneg [OF nn, of v] dangling_mass_nonneg [OF nn] damping_range
    by (intro add_nonneg_nonneg mult_nonneg_nonneg divide_nonneg_nonneg) simp_all
  have "(\<Sum>v\<leftarrow>nodes G. g v) = 1"
    unfolding g_def by (rule rank_step_sum [OF assms(1) one])
  then have "(\<Sum>v\<leftarrow>nodes G. get_score (rank_step G x) v 0) = 1"
    unfolding step by (simp add: sum_tabulate)
  moreover have "list_all (\<lambda>v. 0 \<le> get_score (rank_step G x) v 0) (nodes G)"
    unfolding step by (simp add: list_all_iff get_score_tabulate g0)
  moreover have "rank_step G x = map (\<lambda>v. (v, get_score (rank_step G x) v 0)) (nodes G)"
    unfolding step by (rule tabulate_self)
  ultimately show ?thesis
    unfolding score_vector_def by blast
qed

lemma initial_scores_vector:
  assumes "nodes G \<noteq> []"
  shows "score_vector G (initial_scores G)"
proof -
  have "(\<Sum>v\<leftarrow>nodes G. 1 / real (length (nodes G))) = 1"
    using assms by (simp add: sum_list_triv)
  then have "(\<Sum>v\<leftarrow>nodes G. get_score (initial_scores G) v 0) = 1"
    unfolding initial_scores_def by (simp add: sum_tabulate)
  moreover have "list_all (\<lambda>v. 0 \<le> get_score (initial_scores G) v 0) (nodes G)"
    unfolding initial_scores_def by (simp add: list_all_iff get_score_tabulate)
  moreover have "initial_scores G = map (\<lambda>v. (v, get_score (initial_scores G) v 0)) (nodes G)"
    unfolding initial_scores_def by (rule tabulate_self)
  ultimately show ?thesis
    unfolding score_vector_def by blast
qed

lemma iterate_vector:
  "nodes G \<noteq> [] \<Longrightarrow> score_vector G x \<Longrightarrow> score_vector G (iterate n G x)"
  by (induction n arbitrary: x) (simp_all add: Let_def rank_step_vector)

lemma score_vector_entries:
  assumes "score_vector G x"
  shows "map fst x = nodes G \<and> list_all (\<lambda>(v, s). 0 \<le> s) x \<and> sum_list (map snd x) = 1"
proof -
  from assms have x: "x = map (\<lambda>v. (v, get_score x v 0)) (nodes G)"
    and nn: "list_all (\<lambda>v. 0 \<le> get_score x v 0) (nodes G)"
    and one: "(\<Sum>v\<leftarrow>nodes G. get_score x v 0) = 1"
    by (simp_all add: score_vector_def)
  have "map fst x = nodes G"
    by (subst x) (simp add: comp_def)
  moreover have "map snd x = map (\<lambda>v. get_score x v 0) (nodes G)"
    by (subst x) (simp add: comp_def)
  moreover have "list_all (\<lambda>(v, s). 0 \<le> s) x"
    by (subst x) (use nn in \<open>simp add: list_all_iff\<close>)
  ultimately show ?thesis
    using one by simp
qed

lemma iterate_first:
  "0 < n \<Longrightarrow> l1_change G x (rank_step G x) < tolerance \<Longrightarrow> iterate n G x = rank_step G x"
  by (cases n) (simp_all add: Let_def)

subsection \<open>Which iterate the ranker returns\<close>




text \<open>
  Claim C6, as the specification states it: for every graph the builder produces, the
  scores sum to 1. Six equal tokens pass the length guard of \<open>main\<close> and give a graph
  without nodes; its score map is empty and the scores sum to 0.
\<close>

theorem rank_empty_graph_sums_to_zero:
  "build_graph [''flood'', ''flood'', ''flood'', ''flood'', ''flood'', ''flood''] 2 =
     Inr \<lparr>nodes = [], edges = []\<rparr> \<and>
   rank \<lparr>nodes = [], edges = []\<rparr> = [] \<and>
   sum_list (map snd (rank \<lparr>nodes = [], edges = []\<rparr>)) = 0"
proof -
  have b: "build_graph [''flood'', ''flood'', ''flood'', ''flood'', ''flood'', ''flood''] 2 =
     Inr \<lparr>nodes = [], edges = []\<rparr>"
    by (simp add: build_graph_def py_range_def upto.simps getitem_def empty_graph_def)
  have s: "rank_step \<lparr>nodes = [], edges = []\<rparr> [] = []"
    by (simp add: rank_step_def)
  have "rank \<lparr>nodes = [], edges = []\<rparr> = []"
    unfolding rank_def initial_scores_def
    using iterate_first [of max_iterations "\<lparr>nodes = [], edges = []\<rparr>" "[]"]
    by (simp add: s l1_change_def tolerance_def max_iterations_def)
  with b show ?thesis by simp
qed

text \<open>
  Claim C6, amended: for every graph with at least one node, as the builder produces
  from a sequence in which some window holds two different words, the score map has one
  entry per node, every score is non-negative, and the scores sum to 1 (exactly, over
  the real numbers).
\<close>

theorem rank_scores_sum_to_one:
  assumes "nodes G \<noteq> []"
  shows "map fst (rank G) = nodes G \<and> list_all (\<lambda>(v, s). 0 \<le> s) (rank G) \<and>
         sum_list (map snd (rank G)) = 1"
  unfolding rank_def
  by (rule score_vector_entries, rule iterate_vector [OF assms], rule initial_scores_vector [OF assms])

lemma rank_two_nodes:
  "rank \<lparr>nodes = [''flood'', ''river''], edges = [(''flood'', ''river'')]\<rparr> =
     [(''flood'', 1 / 2), (''river'', 1 / 2)]"
proof -
  define G where "G = \<lparr>nodes = [''flood'', ''river''], edges = [(''flood'', ''river'')]\<rparr>"
  have s: "rank_step G (initial_scores G) = [(''flood'', 1 / 2), (''river'', 1 / 2)]"
    by (simp add: G_def rank_step_def initial_scores_def received_def dangling_mass_def
        neighbors_def degree_def has_edge_def get_score_def damping_def)
  have i: "initial_scores G = [(''flood'', 1 / 2), (''river'', 1 / 2)]"
    by (simp add: G_def initial_scores_def)
  have "l1_change G (initial_scores G) (rank_step G (initial_scores G)) < tolerance"
    unfolding s unfolding i by (simp add: l1_change_def G_def get_score_def tolerance_def)
  then have "rank G = rank_step G (initial_scores G)"
    unfolding rank_def by (intro iterate_first) (simp add: max_iterations_def)
  with s show ?thesis
    by (simp add: G_def)
qed

theorem rank_scores_sum_to_one_witness:
  "build_graph [''flood'', ''river''] 1 =
     Inr \<lparr>nodes = [''flood'', ''river''], edges = [(''flood'', ''river'')]\<rparr> \<and>
   nodes \<lparr>nodes = [''flood'', ''river''], edges = [(''flood'', ''river'')]\<rparr> \<noteq> [] \<and>
   rank \<lparr>nodes = [''flood'', ''river''], edges = [(''flood'', ''river'')]\<rparr> =
     [(''flood'', 1 / 2), (''river'', 1 / 2)] \<and>
   sum_list (map snd (rank \<lparr>nodes = [''flood'', ''river''], edges = [(''flood'', ''river'')]\<rparr>)) = 1"
proof -
  have b: "build_graph [''flood'', ''river''] 1 =
     Inr \<lparr>nodes = [''flood'', ''river''], edges = [(''flood'', ''river'')]\<rparr>"
    by (simp add: build_graph_def py_range_def upto.simps getitem_def add_edge_def
        add_node_def has_edge_def empty_graph_def)
  from rank_scores_sum_to_one
    [of "\<lparr>nodes = [''flood'', ''river''], edges = [(''flood'', ''river'')]\<rparr>"]
  have "sum_list (map snd (rank \<lparr>nodes = [''flood'', ''river''],
      edges = [(''flood'', ''river'')]\<rparr>)) = 1"
    by simp
  with b rank_two_nodes show ?thesis by simp
qed



text \<open>
  The cap at work, with one round allowed: on the star of flood with river and bridge
  the first round changes the scores by 17/30, which is not below the tolerance, and the
  first iterate is returned as it is.
\<close>

lemma iterate_cap_example:
  "\<not> l1_change \<lparr>nodes = [''flood'', ''river'', ''bridge''],
        edges = [(''flood'', ''river''), (''flood'', ''bridge'')]\<rparr>
       (initial_scores \<lparr>nodes = [''flood'', ''river'', ''bridge''],
        edges = [(''flood'', ''river''), (''flood'', ''bridge'')]\<rparr>)
       (rank_step \<lparr>nodes = [''flood'', ''river'', ''bridge''],
        edges = [(''flood'', ''river''), (''flood'', ''bridge'')]\<rparr>
         (initial_scores \<lparr>nodes = [''flood'', ''river'', ''bridge''],
        edges = [(''flood'', ''river''), (''flood'', ''bridge'')]\<rparr>)) < tolerance \<and>
   iterate 1 \<lparr>nodes = [''flood'', ''river'', ''bridge''],
        edges = [(''flood'', ''river''), (''flood'', ''bridge'')]\<rparr>
     (initial_scores \<lparr>nodes = [''flood'', ''river'', ''bridge''],
        edges = [(''flood'', ''river''), (''flood'', ''bridge'')]\<rparr>) =
     [(''flood'', 37 / 60), (''river'', 23 / 120), (''bridge'', 23 / 120)]"
proof -
  define G where "G = \<lparr>nodes = [''flood'', ''river'', ''bridge''],
        edges = [(''flood'', ''river''), (''flood'', ''bridge'')]\<rparr>"
  have s: "rank_step G (initial_scores G) =
      [(''flood'', 37 / 60), (''river'', 23 / 120), (''bridge'', 23 / 120)]"
    by (simp add: G_def rank_step_def initial_scores_def received_def dangling_mass_def
        neighbors_def degree_def has_edge_def get_score_def damping_def)
  have i: "initial_scores G = [(''flood'', 1 / 3), (''river'', 1 / 3), (''bridge'', 1 / 3)]"
    by (simp add: G_def initial_scores_def)
  have c: "\<not> l1_change G (initial_scores G) (rank_step G (initial_scores G)) < tolerance"
    unfolding s unfolding i by (simp add: l1_change_def G_def get_score_def tolerance_def)
  then have "iterate 1 G (initial_scores G) = rank_step G (initial_scores G)"
    by (simp add: Let_def)
  with c s show ?thesis
    unfolding G_def by simp
qed

end
